theory Spec2Isabelle
  imports Complex_Main "HOL-Library.Sublist"
begin

section \<open>JavaScript strings\<close>

text \<open>
  A string is modelled as a \<^typ>\<open>string\<close> whose characters are the code units
  U+0000 to U+00FF. On these, the white space of \<^verbatim>\<open>\s\<close> and of
  \<^verbatim>\<open>trim\<close> is tab, line feed, vertical tab, form feed, carriage return, space and
  the no-break space U+00A0, and \<^verbatim>\<open>toLowerCase\<close> maps the letters A to Z,
  U+00C0 to U+00D6 and U+00D8 to U+00DE to the code unit 32 above and leaves every other
  code unit as it is.
\<close>

definition is_space :: "char \<Rightarrow> bool" where
  "is_space c \<longleftrightarrow>
     c \<in> {CHR 0x09, CHR 0x0A, CHR 0x0B, CHR 0x0C, CHR 0x0D, CHR 0x20, CHR 0xA0}"

definition lower_char :: "char \<Rightarrow> char" where
  "lower_char c =
     (if (65 \<le> (of_char c :: nat) \<and> (of_char c :: nat) \<le> 90)
         \<or> (192 \<le> (of_char c :: nat) \<and> (of_char c :: nat) \<le> 222 \<and> (of_char c :: nat) \<noteq> 215)
      then char_of ((of_char c :: nat) + 32) else c)"

definition toLowerCase :: "string \<Rightarrow> string" where
  "toLowerCase s = map lower_char s"

text \<open>\<^verbatim>\<open>s.trim()\<close>: white space is removed at both ends.\<close>

definition trim :: "string \<Rightarrow> string" where
  "trim s = rev (dropWhile is_space (rev (dropWhile is_space s)))"

text \<open>
  \<^verbatim>\<open>s.split(/\s+/)\<close>. The text up to the first run of white space is one element;
  the run is skipped as a whole (the pattern is greedy) and the rest is split in the same
  way. When no white space is left, what remains is the last element, also when it is
  empty: the empty string gives one empty element, and white space at either end of
  the string gives an empty element there.
\<close>

function split_ws :: "string \<Rightarrow> string list" where
  "split_ws s =
     (let tok = takeWhile (\<lambda>c. \<not> is_space c) s;
          rest = dropWhile (\<lambda>c. \<not> is_space c) s
      in if rest = [] then [tok] else tok # split_ws (dropWhile is_space rest))"
  by pat_completeness auto
termination
proof (relation "measure length")
  fix s tok rest
  assume r: "rest = dropWhile (\<lambda>c. \<not> is_space c) s" and ne: "rest \<noteq> []"
  from ne obtain c cs where rc: "rest = c # cs" by (cases rest) auto
  with r have "is_space c" by (metis hd_dropWhile list.sel(1) ne)
  then have "dropWhile is_space rest = dropWhile is_space cs" by (simp add: rc)
  then have "length (dropWhile is_space rest) \<le> length cs"
    by (simp add: length_dropWhile_le)
  moreover have "length rest \<le> length s" by (simp add: r length_dropWhile_le)
  ultimately have "length (dropWhile is_space rest) < length s" by (simp add: rc)
  then show "(dropWhile is_space rest, s) \<in> measure length" by simp
qed simp

declare split_ws.simps [simp del]

text \<open>\<^verbatim>\<open>a.includes(b)\<close>: \<open>b\<close> occurs in \<open>a\<close> at some position.\<close>

fun str_includes :: "string \<Rightarrow> string \<Rightarrow> bool" where
  "str_includes [] t = (t = [])"
| "str_includes (c # cs) t = (prefix t (c # cs) \<or> str_includes cs t)"

section \<open>The FAQ route: fallback search\<close>

text \<open>The field \<^verbatim>\<open>text\<close> of a match is named \<open>match_text\<close> here.\<close>

record SearchMatch =
  match_text :: string
  score :: rat

definition FALLBACK_CORPUS :: "string list" where
  "FALLBACK_CORPUS =
    [''Medication adherence improves outcomes in diabetes; missed doses are a leading cause of poor control.'',
     ''Keep an up-to-date medication list; reconcile after every clinic or hospital visit.'',
     ''Use a pill organizer or phone reminders to reduce unintentional nonadherence.'',
     ''High-risk interactions include anticoagulants with NSAIDs, ACE inhibitors with potassium-sparing diuretics, and metformin around contrast imaging.'',
     ''When in doubt, consult a pharmacist or clinician; online lists can be incomplete.'']"

text \<open>
  The predicate of the \<^verbatim>\<open>filter\<close> over the query terms: some term of the chunk
  contains the query term, or the query term contains it.
\<close>

definition term_matches :: "string list \<Rightarrow> string \<Rightarrow> bool" where
  "term_matches textTerms term =
     list_ex (\<lambda>textTerm. str_includes textTerm term \<or> str_includes term textTerm) textTerms"

text \<open>
  The body of the \<^verbatim>\<open>map\<close> over the corpus. The quotient of the two lengths is
  kept exact: all scores of one query have the same denominator, so the order and the
  equality of the rounded quotients are those of the exact ones.
\<close>

definition score_chunk :: "string list \<Rightarrow> string \<Rightarrow> SearchMatch" where
  "score_chunk queryTerms txt =
     (let textTerms = split_ws (toLowerCase txt);
          matches = filter (term_matches textTerms) queryTerms
      in \<lparr>match_text = txt, score = of_nat (length matches) / of_nat (length queryTerms)\<rparr>)"

definition scores :: "string \<Rightarrow> SearchMatch list" where
  "scores query =
     (let queryTerms = split_ws (toLowerCase query)
      in map (score_chunk queryTerms) FALLBACK_CORPUS)"

text \<open>
  \<^verbatim>\<open>Array.prototype.sort\<close> with a comparator is a stable sort: an element goes
  before another when the comparator is negative, and elements that compare equal keep
  their order.
\<close>

fun insert_cmp :: "('a \<Rightarrow> 'a \<Rightarrow> rat) \<Rightarrow> 'a \<Rightarrow> 'a list \<Rightarrow> 'a list" where
  "insert_cmp cmp x [] = [x]"
| "insert_cmp cmp x (y # ys) =
     (if cmp x y \<le> 0 then x # y # ys else y # insert_cmp cmp x ys)"

definition sort_cmp :: "('a \<Rightarrow> 'a \<Rightarrow> rat) \<Rightarrow> 'a list \<Rightarrow> 'a list" where
  "sort_cmp cmp xs = foldr (insert_cmp cmp) xs []"

definition searchWithFallback :: "string \<Rightarrow> SearchMatch list" where
  "searchWithFallback query =
     take 3 (sort_cmp (\<lambda>a b. score b - score a)
       (filter (\<lambda>item. score item > 0) (scores query)))"


section \<open>The FAQ route: the search service\<close>

text \<open>
  The instance fields of \<^verbatim>\<open>FAQSearchService\<close>: whether each client object has
  been assigned, and the flag \<^verbatim>\<open>useFallback\<close>.
\<close>

record FAQSearchService =
  pinecone :: bool
  openai :: bool
  useFallback :: bool

text \<open>
  What lies outside the process at the time of one request: the two environment variables,
  whether each client constructor returns, the embedding call followed by the index query
  (\<open>None\<close> when either of them throws), and the chat completion.
\<close>

record raw_match =
  metadata_text :: "string option"
  raw_score :: "rat option"

datatype chat_outcome = ChatThrows | ChatReturns "string option"

record world =
  PINECONE_API_KEY :: "string option"
  OPENAI_API_KEY :: "string option"
  pinecone_constructs :: bool
  openai_constructs :: bool
  vector_query :: "string \<Rightarrow> raw_match list option"
  chat :: "string \<Rightarrow> chat_outcome"

text \<open>An environment variable is truthy when it is set and not empty.\<close>

definition truthy :: "string option \<Rightarrow> bool" where
  "truthy v = (case v of None \<Rightarrow> False | Some s \<Rightarrow> s \<noteq> [])"

text \<open>
  The constructor. A constructor of a client that throws is caught: the fields assigned so
  far stay, and \<^verbatim>\<open>useFallback\<close> is set.
\<close>

definition new_FAQSearchService :: "world \<Rightarrow> FAQSearchService" where
  "new_FAQSearchService w =
     (if truthy (PINECONE_API_KEY w) \<and> truthy (OPENAI_API_KEY w) then
        (if \<not> pinecone_constructs w then
           \<lparr>pinecone = False, openai = False, useFallback = True\<rparr>
         else if \<not> openai_constructs w then
           \<lparr>pinecone = True, openai = False, useFallback = True\<rparr>
         else \<lparr>pinecone = True, openai = True, useFallback = False\<rparr>)
      else \<lparr>pinecone = False, openai = False, useFallback = True\<rparr>)"

text \<open>\<^verbatim>\<open>searchWithPinecone\<close>; \<open>None\<close> is a thrown error.\<close>

definition searchWithPinecone :: "FAQSearchService \<Rightarrow> world \<Rightarrow> string \<Rightarrow> SearchMatch list option" where
  "searchWithPinecone svc w query =
     (if \<not> pinecone svc \<or> \<not> openai svc then None
      else case vector_query w query of
        None \<Rightarrow> None
      | Some ms \<Rightarrow>
          Some (filter (\<lambda>m. match_text m \<noteq> [])
            (map (\<lambda>m. \<lparr>match_text = (case metadata_text m of Some t \<Rightarrow> t | None \<Rightarrow> []),
                        score = (case raw_score m of Some x \<Rightarrow> x | None \<Rightarrow> 0)\<rparr>) ms)))"

text \<open>
  \<^verbatim>\<open>search\<close> returns the matches and the updated instance; the path taken is
  returned with them, so that it can be observed.
\<close>

datatype search_path = FallbackDirect | VectorOk | VectorFailedThenFallback

definition search :: "FAQSearchService \<Rightarrow> world \<Rightarrow> string \<Rightarrow> SearchMatch list \<times> search_path \<times> FAQSearchService" where
  "search svc w query =
     (if useFallback svc then (searchWithFallback query, FallbackDirect, svc)
      else case searchWithPinecone svc w query of
        Some ms \<Rightarrow> (ms, VectorOk, svc)
      | None \<Rightarrow> (searchWithFallback query, VectorFailedThenFallback, svc\<lparr>useFallback := True\<rparr>))"

section \<open>The FAQ route: answer synthesis\<close>

definition NO_INFORMATION :: string where
  "NO_INFORMATION = ''I don't have specific information about that topic. Please consult with a healthcare professional for medical guidance.''"

definition GUIDANCE_SUFFIX :: string where
  "GUIDANCE_SUFFIX = '' For additional guidance, consult with a healthcare professional.''"

definition UNABLE :: string where
  "UNABLE = ''Unable to generate response.''"

text \<open>\<^verbatim>\<open>texts.join('\n\n')\<close>\<close>

fun join_blank_line :: "string list \<Rightarrow> string" where
  "join_blank_line [] = []"
| "join_blank_line [t] = t"
| "join_blank_line (t # ts) = t @ [CHR 0x0A, CHR 0x0A] @ join_blank_line ts"

definition prompt :: "string \<Rightarrow> SearchMatch list \<Rightarrow> string" where
  "prompt query matches =
     ''Based on the following medical information, provide a concise answer to the question: ''
     @ [CHR 0x22] @ query @ [CHR 0x22, CHR 0x0A, CHR 0x0A] @ ''Context:'' @ [CHR 0x0A]
     @ join_blank_line (map match_text matches) @ [CHR 0x0A, CHR 0x0A]
     @ ''Please provide a helpful, accurate response. If the context doesn't contain enough information, say so and recommend consulting a healthcare professional.''"

text \<open>
  \<^verbatim>\<open>synthesizeAnswer\<close> returns the answer; with it, whether the chat completion was
  called.
\<close>

record synthesis =
  answer_text :: string
  generative_called :: bool

text \<open>
  The last lines of \<^verbatim>\<open>synthesizeAnswer\<close>, reached with at least one match only
  (the first line of the function returns when there is none).
\<close>

definition simple_synthesis :: "SearchMatch list \<Rightarrow> string" where
  "simple_synthesis matches =
     (if length matches = 1 then match_text (hd matches)
      else match_text (hd matches) @ GUIDANCE_SUFFIX)"

definition synthesizeAnswer :: "FAQSearchService \<Rightarrow> world \<Rightarrow> string \<Rightarrow> SearchMatch list \<Rightarrow> synthesis" where
  "synthesizeAnswer svc w query matches =
     (if length matches = 0 then \<lparr>answer_text = NO_INFORMATION, generative_called = False\<rparr>
      else if openai svc \<and> \<not> useFallback svc then
        (case chat w (prompt query matches) of
           ChatReturns (Some content) \<Rightarrow>
             \<lparr>answer_text = (if content \<noteq> [] then content else UNABLE), generative_called = True\<rparr>
         | ChatReturns None \<Rightarrow> \<lparr>answer_text = UNABLE, generative_called = True\<rparr>
         | ChatThrows \<Rightarrow> \<lparr>answer_text = simple_synthesis matches, generative_called = True\<rparr>)
      else \<lparr>answer_text = simple_synthesis matches, generative_called = False\<rparr>)"

record FAQResponse =
  answer :: string
  matches :: "SearchMatch list"

definition handleFAQ :: "FAQSearchService \<Rightarrow> world \<Rightarrow> string \<Rightarrow> FAQResponse \<times> search_path \<times> FAQSearchService" where
  "handleFAQ svc w query =
     (case search svc w query of
        (ms, path, svc') \<Rightarrow>
          (\<lparr>answer = answer_text (synthesizeAnswer svc' w query ms), matches = ms\<rparr>, path, svc'))"


section \<open>The rate limiter\<close>

record RateLimitEntry =
  count :: int
  resetTime :: int

record RateLimiter =
  requests :: "string \<rightharpoonup> RateLimitEntry"
  windowMs :: int
  maxRequests :: int

definition new_RateLimiter :: "int \<Rightarrow> int \<Rightarrow> RateLimiter" where
  "new_RateLimiter w c = \<lparr>requests = Map.empty, windowMs = w, maxRequests = c\<rparr>"

definition RATE_LIMIT_WINDOW_MS :: int where
  "RATE_LIMIT_WINDOW_MS = 60000"

definition RATE_LIMIT_MAX_REQUESTS :: int where
  "RATE_LIMIT_MAX_REQUESTS = 100"

definition rateLimiter :: RateLimiter where
  "rateLimiter = new_RateLimiter RATE_LIMIT_WINDOW_MS RATE_LIMIT_MAX_REQUESTS"

text \<open>
  \<^verbatim>\<open>isAllowed\<close>, with the value of \<^verbatim>\<open>Date.now()\<close> as an argument. It returns
  its result and the limiter after the call.
\<close>

definition isAllowed :: "RateLimiter \<Rightarrow> int \<Rightarrow> string \<Rightarrow> bool \<times> RateLimiter" where
  "isAllowed rl now identifier =
     (case requests rl identifier of
        None \<Rightarrow>
          (True, rl\<lparr>requests := (requests rl)(identifier \<mapsto>
                    \<lparr>count = 1, resetTime = now + windowMs rl\<rparr>)\<rparr>)
      | Some entry \<Rightarrow>
          if now > resetTime entry then
            (True, rl\<lparr>requests := (requests rl)(identifier \<mapsto>
                      \<lparr>count = 1, resetTime = now + windowMs rl\<rparr>)\<rparr>)
          else if count entry \<ge> maxRequests rl then (False, rl)
          else
            (True, rl\<lparr>requests := (requests rl)(identifier \<mapsto>
                      entry\<lparr>count := count entry + 1\<rparr>)\<rparr>))"

definition getRemaining :: "RateLimiter \<Rightarrow> int \<Rightarrow> string \<Rightarrow> int" where
  "getRemaining rl now identifier =
     (case requests rl identifier of
        None \<Rightarrow> maxRequests rl
      | Some entry \<Rightarrow>
          if now > resetTime entry then maxRequests rl
          else max 0 (maxRequests rl - count entry))"

definition cleanup :: "RateLimiter \<Rightarrow> int \<Rightarrow> RateLimiter" where
  "cleanup rl now =
     rl\<lparr>requests := (\<lambda>key. case requests rl key of
                          None \<Rightarrow> None
                        | Some entry \<Rightarrow> if now > resetTime entry then None else Some entry)\<rparr>"

text \<open>Consecutive calls for one key, at the given clock readings.\<close>

fun isAllowed_calls :: "RateLimiter \<Rightarrow> string \<Rightarrow> int list \<Rightarrow> bool list \<times> RateLimiter" where
  "isAllowed_calls rl k [] = ([], rl)"
| "isAllowed_calls rl k (t # ts) =
     (case isAllowed rl t k of
        (b, rl') \<Rightarrow> (case isAllowed_calls rl' k ts of (bs, rl'') \<Rightarrow> (b # bs, rl'')))"

section \<open>The query history\<close>

text \<open>The field \<^verbatim>\<open>id\<close> of an item is named \<open>item_id\<close> here.\<close>

record QueryHistoryItem =
  item_id :: string
  medA :: string
  medB :: string
  isPotentiallyRisky :: bool
  reason :: string
  timestamp :: int

record QueryHistoryStore =
  history :: "QueryHistoryItem list"

definition maxItems :: nat where
  "maxItems = 10"

definition queryHistoryStore :: QueryHistoryStore where
  "queryHistoryStore = \<lparr>history = []\<rparr>"

text \<open>\<^verbatim>\<open>n.toString()\<close> for an integer: its decimal digits, after a minus sign if negative.\<close>

fun digits :: "nat \<Rightarrow> string" where
  "digits n = (if n < 10 then [char_of (48 + n)] else digits (n div 10) @ [char_of (48 + n mod 10)])"

declare digits.simps [simp del]

definition toString :: "int \<Rightarrow> string" where
  "toString i = (if i < 0 then CHR ''-'' # digits (nat (- i)) else digits (nat i))"

text \<open>
  The arguments of one call of \<^verbatim>\<open>addQuery\<close>, with the two clock readings it makes
  (\<^verbatim>\<open>Date.now()\<close> for the id, \<^verbatim>\<open>new Date()\<close> for the timestamp).
\<close>

record addQuery_call =
  arg_medA :: string
  arg_medB :: string
  arg_isPotentiallyRisky :: bool
  arg_reason :: string
  clock_id :: int
  clock_timestamp :: int

definition new_item :: "addQuery_call \<Rightarrow> QueryHistoryItem" where
  "new_item c =
     \<lparr>item_id = toString (clock_id c), medA = arg_medA c, medB = arg_medB c,
      isPotentiallyRisky = arg_isPotentiallyRisky c, reason = arg_reason c,
      timestamp = clock_timestamp c\<rparr>"

definition addQuery :: "QueryHistoryStore \<Rightarrow> addQuery_call \<Rightarrow> QueryHistoryStore" where
  "addQuery st c =
     (let h = new_item c # history st
      in if length h > maxItems then st\<lparr>history := take maxItems h\<rparr> else st\<lparr>history := h\<rparr>)"





section \<open>The interaction rules\<close>

record InteractionRule =
  drugs :: "string \<times> string"
  risky :: bool
  rule_reason :: string
  rule_advice :: string

definition INTERACTION_RULES :: "InteractionRule list" where
  "INTERACTION_RULES =
    [\<lparr>drugs = (''warfarin'', ''ibuprofen''), risky = True,
      rule_reason = ''increased bleeding risk'',
      rule_advice = ''avoid combo; consult clinician; prefer acetaminophen for pain relief''\<rparr>,
     \<lparr>drugs = (''metformin'', ''contrast dye''), risky = True,
      rule_reason = ''lactic acidosis risk around imaging contrast'',
      rule_advice = ''hold metformin per imaging protocol''\<rparr>,
     \<lparr>drugs = (''lisinopril'', ''spironolactone''), risky = True,
      rule_reason = ''hyperkalemia risk'',
      rule_advice = ''monitor potassium, consult clinician''\<rparr>]"

definition findInteraction :: "string \<Rightarrow> string \<Rightarrow> InteractionRule option" where
  "findInteraction a b =
     (let normalizedA = trim (toLowerCase a); normalizedB = trim (toLowerCase b)
      in find (\<lambda>rule.
           let drug1 = toLowerCase (fst (drugs rule)); drug2 = toLowerCase (snd (drugs rule))
           in (drug1 = normalizedA \<and> drug2 = normalizedB) \<or>
              (drug1 = normalizedB \<and> drug2 = normalizedA)) INTERACTION_RULES)"

record InteractionResult =
  pair :: "string \<times> string"
  result_isPotentiallyRisky :: bool
  result_reason :: string
  result_advice :: string

definition checkInteraction :: "string \<Rightarrow> string \<Rightarrow> InteractionResult" where
  "checkInteraction a b =
     (case findInteraction a b of
        Some interaction \<Rightarrow>
          \<lparr>pair = (a, b), result_isPotentiallyRisky = risky interaction,
           result_reason = rule_reason interaction, result_advice = rule_advice interaction\<rparr>
      | None \<Rightarrow>
          \<lparr>pair = (a, b), result_isPotentiallyRisky = False,
           result_reason = ''No known interaction found'',
           result_advice = ''No specific interaction warnings found in our database. However, always consult with a healthcare professional before combining medications.''\<rparr>)"

section \<open>The request handlers\<close>

text \<open>
  The state shared by all requests of the process: the two module-level singletons
  \<^verbatim>\<open>rateLimiter\<close> and \<^verbatim>\<open>queryHistoryStore\<close>.
\<close>

record shared_state =
  limiter :: RateLimiter
  store :: QueryHistoryStore

text \<open>
  A response is its status and its JSON body; of a validation failure only the
  \<^verbatim>\<open>error\<close> member is kept.
\<close>

datatype body =
    ErrorBody string
  | InteractionBody InteractionResult
  | FAQBody FAQResponse

record response =
  status :: nat
  json :: body

text \<open>\<^verbatim>\<open>a || b || 'unknown'\<close> on two header values: the first that is set and not empty.\<close>

definition clientIp :: "string option \<Rightarrow> string option \<Rightarrow> string" where
  "clientIp forwarded_for real_ip =
     (if truthy forwarded_for then the forwarded_for
      else if truthy real_ip then the real_ip else ''unknown'')"

subsection \<open>POST /api/interactions\<close>

text \<open>
  The body of the request as \<^verbatim>\<open>request.json()\<close> and the schema see it: it does not
  parse, or it is not an object, or it is an object whose members \<^verbatim>\<open>medA\<close> and
  \<^verbatim>\<open>medB\<close> are each a string or something else (missing, or of another type).
\<close>

datatype json_member = NotAString | Str string

datatype request_body = Unparsable | NotAnObject | Object json_member json_member

record interactions_request =
  post_x_forwarded_for :: "string option"
  post_x_real_ip :: "string option"
  post_body :: request_body
  post_now :: int
  post_clock_id :: int
  post_clock_timestamp :: int

text \<open>
  The character class of \<^verbatim>\<open>VALIDATION_PATTERNS.MEDICATION_NAME\<close>, and the checks of
  one member of the schema in their order: minimum and maximum length on the string as
  sent, then the trim, then the pattern on the trimmed string.
\<close>

definition name_char :: "char \<Rightarrow> bool" where
  "name_char c \<longleftrightarrow>
     (let n = (of_char c :: nat)
      in (97 \<le> n \<and> n \<le> 122) \<or> (65 \<le> n \<and> n \<le> 90) \<or> (48 \<le> n \<and> n \<le> 57)
         \<or> is_space c \<or> c = CHR ''-'' \<or> c = CHR ''.'')"

definition parse_member :: "json_member \<Rightarrow> string option" where
  "parse_member m =
     (case m of
        NotAString \<Rightarrow> None
      | Str s \<Rightarrow>
          if 1 \<le> length s \<and> length s \<le> 100 \<and> trim s \<noteq> [] \<and> list_all name_char (trim s)
          then Some (trim s) else None)"

definition POST :: "shared_state \<Rightarrow> interactions_request \<Rightarrow> response \<times> shared_state" where
  "POST st req =
     (case isAllowed (limiter st) (post_now req)
             (clientIp (post_x_forwarded_for req) (post_x_real_ip req)) of
        (False, rl) \<Rightarrow>
          (\<lparr>status = 429, json = ErrorBody ''Rate limit exceeded. Please try again later.''\<rparr>,
           st\<lparr>limiter := rl\<rparr>)
      | (True, rl) \<Rightarrow>
          (case post_body req of
             Unparsable \<Rightarrow>
               (\<lparr>status = 500, json = ErrorBody ''Internal server error''\<rparr>, st\<lparr>limiter := rl\<rparr>)
           | NotAnObject \<Rightarrow>
               (\<lparr>status = 400, json = ErrorBody ''Validation failed''\<rparr>, st\<lparr>limiter := rl\<rparr>)
           | Object ma mb \<Rightarrow>
               (case (parse_member ma, parse_member mb) of
                  (Some a, Some b) \<Rightarrow>
                    if trim (toLowerCase a) = trim (toLowerCase b) then
                      (\<lparr>status = 400, json = ErrorBody ''Please provide two different medications''\<rparr>,
                       st\<lparr>limiter := rl\<rparr>)
                    else
                      (let result = checkInteraction a b
                       in (\<lparr>status = 200, json = InteractionBody result\<rparr>,
                           \<lparr>limiter = rl,
                            store = addQuery (store st)
                              \<lparr>arg_medA = a, arg_medB = b,
                               arg_isPotentiallyRisky = result_isPotentiallyRisky result,
                               arg_reason = result_reason result,
                               clock_id = post_clock_id req,
                               clock_timestamp = post_clock_timestamp req\<rparr>\<rparr>))
                | _ \<Rightarrow>
                    (\<lparr>status = 400, json = ErrorBody ''Validation failed''\<rparr>, st\<lparr>limiter := rl\<rparr>))))"

subsection \<open>GET /api/faq\<close>

definition QUERY_REQUIRED :: string where
  "QUERY_REQUIRED = ''Query parameter '' @ [CHR 0x22] @ ''q'' @ [CHR 0x22] @ '' is required''"

record faq_request =
  get_x_forwarded_for :: "string option"
  get_x_real_ip :: "string option"
  q :: "string option"
  get_now :: int

text \<open>
  The handler returns the response and the shared state; with them the path of the search,
  when the request reaches it. It constructs the search service itself, for this request.
  The service catches what the embedding, the index query and the chat completion throw,
  so the handler's own \<^verbatim>\<open>catch\<close>, which answers 500, has no branch here.
\<close>

definition GET :: "shared_state \<Rightarrow> world \<Rightarrow> faq_request \<Rightarrow> response \<times> search_path option \<times> shared_state" where
  "GET st w req =
     (case isAllowed (limiter st) (get_now req)
             (clientIp (get_x_forwarded_for req) (get_x_real_ip req)) of
        (False, rl) \<Rightarrow>
          (\<lparr>status = 429, json = ErrorBody ''Rate limit exceeded. Please try again later.''\<rparr>,
           None, st\<lparr>limiter := rl\<rparr>)
      | (True, rl) \<Rightarrow>
          (case q req of
             None \<Rightarrow>
               (\<lparr>status = 400, json = ErrorBody QUERY_REQUIRED\<rparr>,
                None, st\<lparr>limiter := rl\<rparr>)
           | Some query \<Rightarrow>
               if query = [] \<or> length (trim query) = 0 then
                 (\<lparr>status = 400, json = ErrorBody QUERY_REQUIRED\<rparr>,
                  None, st\<lparr>limiter := rl\<rparr>)
               else
                 (let searchService = new_FAQSearchService w
                  in case handleFAQ searchService w (trim query) of
                       (result, path, _) \<Rightarrow>
                         (\<lparr>status = 200, json = FAQBody result\<rparr>, Some path, st\<lparr>limiter := rl\<rparr>))))"

text \<open>The requests of a process one after the other, each with the world at its time.\<close>

fun serve :: "shared_state \<Rightarrow> (world \<times> faq_request) list \<Rightarrow> (response \<times> search_path option) list" where
  "serve st [] = []"
| "serve st ((w, req) # rest) =
     (case GET st w req of (resp, path, st') \<Rightarrow> (resp, path) # serve st' rest)"

text \<open>Searches one after the other on a single instance of the service.\<close>

fun searches :: "FAQSearchService \<Rightarrow> (world \<times> string) list \<Rightarrow> (SearchMatch list \<times> search_path) list" where
  "searches svc [] = []"
| "searches svc ((w, query) # rest) =
     (case search svc w query of (ms, path, svc') \<Rightarrow> (ms, path) # searches svc' rest)"

section \<open>The words of the specification\<close>

text \<open>
  The score as the specification words it, to be compared with \<^const>\<open>scores\<close>. A
  token is a maximal run of characters that are not white space; a query term is matched
  by a chunk when it is part of a token of the lowercased chunk or such a token is part
  of it; the score is the number of matched query terms over the number of query terms.
\<close>

function spec_tokens :: "string \<Rightarrow> string list" where
  "spec_tokens s =
     (let s' = dropWhile is_space s
      in if s' = [] then []
         else takeWhile (\<lambda>c. \<not> is_space c) s' # spec_tokens (dropWhile (\<lambda>c. \<not> is_space c) s'))"
  by pat_completeness auto
termination
proof (relation "measure length")
  fix s s'
  assume d: "s' = dropWhile is_space s" and ne: "s' \<noteq> []"
  from ne obtain c cs where sc: "s' = c # cs" by (cases s') auto
  with d have "\<not> is_space c" by (metis hd_dropWhile list.sel(1) ne)
  then have "dropWhile (\<lambda>c. \<not> is_space c) s' = dropWhile (\<lambda>c. \<not> is_space c) cs"
    by (simp add: sc)
  then have "length (dropWhile (\<lambda>c. \<not> is_space c) s') \<le> length cs"
    by (simp add: length_dropWhile_le)
  moreover have "length s' \<le> length s" by (simp add: d length_dropWhile_le)
  ultimately have "length (dropWhile (\<lambda>c. \<not> is_space c) s') < length s" by (simp add: sc)
  then show "(dropWhile (\<lambda>c. \<not> is_space c) s', s) \<in> measure length" by simp
qed simp

declare spec_tokens.simps [simp del]

definition spec_matched :: "string \<Rightarrow> string \<Rightarrow> bool" where
  "spec_matched chunk queryTerm \<longleftrightarrow>
     list_ex (\<lambda>chunkTerm. sublist queryTerm chunkTerm \<or> sublist chunkTerm queryTerm)
       (spec_tokens (toLowerCase chunk))"

definition spec_score :: "string \<Rightarrow> string \<Rightarrow> rat" where
  "spec_score query chunk =
     of_nat (length (filter (spec_matched chunk) (spec_tokens (toLowerCase query))))
     / of_nat (length (spec_tokens (toLowerCase query)))"

text \<open>The ordinal of a chunk: its position in the corpus, from 0.\<close>

definition ordinal :: "string \<Rightarrow> nat" where
  "ordinal chunk = length (takeWhile (\<lambda>c. c \<noteq> chunk) FALLBACK_CORPUS)"


text \<open>
  A string that is not empty and has no white space at either end, as the handler passes to
  the search after \<^verbatim>\<open>trim\<close>.
\<close>

definition trimmed :: "string \<Rightarrow> bool" where
  "trimmed s \<longleftrightarrow> s \<noteq> [] \<and> \<not> is_space (hd s) \<and> \<not> is_space (last s)"

text \<open>The order of the result: by score, the higher first, and by ordinal where scores are equal.\<close>

definition ranks_before :: "SearchMatch \<Rightarrow> SearchMatch \<Rightarrow> bool" where
  "ranks_before a b \<longleftrightarrow>
     score a > score b \<or> (score a = score b \<and> ordinal (match_text a) < ordinal (match_text b))"

section \<open>Sample inputs\<close>


text \<open>A world in which both services answer, and one in which the vector search fails.\<close>

definition world_up :: world where
  "world_up =
     \<lparr>PINECONE_API_KEY = Some ''pc-key'', OPENAI_API_KEY = Some ''sk-key'',
      pinecone_constructs = True, openai_constructs = True,
      vector_query = (\<lambda>query. Some [\<lparr>metadata_text = Some ''Keep an up-to-date medication list.'',
                                       raw_score = Some (9 / 10)\<rparr>]),
      chat = (\<lambda>p. ChatReturns (Some ''Generated answer.''))\<rparr>"

definition world_down :: world where
  "world_down = world_up\<lparr>vector_query := (\<lambda>query. None)\<rparr>"

text \<open>Worlds in which the chat completion throws, and in which it returns no content.\<close>

definition world_chat_down :: world where
  "world_chat_down = world_up\<lparr>chat := (\<lambda>p. ChatThrows)\<rparr>"

definition world_chat_silent :: world where
  "world_chat_silent = world_up\<lparr>chat := (\<lambda>p. ChatReturns None)\<rparr>"

definition vector_service :: FAQSearchService where
  "vector_service = \<lparr>pinecone = True, openai = True, useFallback = False\<rparr>"

definition fallback_service :: FAQSearchService where
  "fallback_service = \<lparr>pinecone = False, openai = False, useFallback = True\<rparr>"

definition one_match :: SearchMatch where
  "one_match = \<lparr>match_text = ''Keep an up-to-date medication list.'', score = 1\<rparr>"

text \<open>A state in which the client \<open>unknown\<close> has used up its window, and a request of that client.\<close>

definition exhausted_state :: shared_state where
  "exhausted_state =
     \<lparr>limiter = rateLimiter\<lparr>requests := [''unknown'' \<mapsto> \<lparr>count = 100, resetTime = 60000\<rparr>]\<rparr>,
      store = queryHistoryStore\<rparr>"

definition sample_post :: interactions_request where
  "sample_post =
     \<lparr>post_x_forwarded_for = None, post_x_real_ip = None,
      post_body = Object (Str ''warfarin'') (Str ''ibuprofen''),
      post_now = 1000, post_clock_id = 1000, post_clock_timestamp = 1000\<rparr>"

definition sample_get :: faq_request where
  "sample_get =
     \<lparr>get_x_forwarded_for = Some ''10.0.0.1'', get_x_real_ip = None,
      q = Some ''medication list'', get_now = 1000\<rparr>"

definition initial_state :: shared_state where
  "initial_state = \<lparr>limiter = rateLimiter, store = queryHistoryStore\<rparr>"

section \<open>Properties: the query history\<close>







section \<open>Properties: the rate limiter\<close>

lemma isAllowed_config:
  "windowMs (snd (isAllowed rl now k)) = windowMs rl"
  "maxRequests (snd (isAllowed rl now k)) = maxRequests rl"
  by (simp_all add: isAllowed_def split: option.splits)

lemma isAllowed_other_key:
  "k \<noteq> k' \<Longrightarrow> requests (snd (isAllowed rl now k)) k' = requests rl k'"
  by (simp add: isAllowed_def split: option.splits)

lemma isAllowed_denied_unchanged:
  "\<not> fst (isAllowed rl now k) \<Longrightarrow> snd (isAllowed rl now k) = rl"
  by (cases "requests rl k") (auto simp: isAllowed_def split: if_splits)

text \<open>
  What a call for a key returns, and the entry it leaves for that key, depend on the entry
  of that key and on the configuration only.
\<close>

lemma isAllowed_local:
  assumes "requests rl1 k = requests rl2 k" "windowMs rl1 = windowMs rl2"
    "maxRequests rl1 = maxRequests rl2"
  shows "fst (isAllowed rl1 t k) = fst (isAllowed rl2 t k)"
    and "requests (snd (isAllowed rl1 t k)) k = requests (snd (isAllowed rl2 t k)) k"
  using assms by (cases "requests rl2 k"; simp add: isAllowed_def)+

lemma isAllowed_calls_local:
  assumes "requests rl1 k = requests rl2 k" "windowMs rl1 = windowMs rl2"
    "maxRequests rl1 = maxRequests rl2"
  shows "fst (isAllowed_calls rl1 k ts) = fst (isAllowed_calls rl2 k ts)"
  using assms
proof (induction ts arbitrary: rl1 rl2)
  case Nil
  then show ?case by simp
next
  case (Cons t ts)
  have r: "fst (isAllowed rl1 t k) = fst (isAllowed rl2 t k)"
    and e: "requests (snd (isAllowed rl1 t k)) k = requests (snd (isAllowed rl2 t k)) k"
    using Cons.prems by (rule isAllowed_local)+
  have "fst (isAllowed_calls (snd (isAllowed rl1 t k)) k ts)
      = fst (isAllowed_calls (snd (isAllowed rl2 t k)) k ts)"
    using e Cons.prems by (intro Cons.IH) (simp_all add: isAllowed_config)
  with r show ?case by (simp add: split_beta)
qed

lemma isAllowed_calls_config:
  "windowMs (snd (isAllowed_calls rl k ts)) = windowMs rl"
  "maxRequests (snd (isAllowed_calls rl k ts)) = maxRequests rl"
  by (induction ts arbitrary: rl) (simp_all add: split_beta isAllowed_config)

lemma isAllowed_calls_other_key:
  "k \<noteq> k' \<Longrightarrow> requests (snd (isAllowed_calls rl k ts)) k' = requests rl k'"
  by (induction ts arbitrary: rl) (simp_all add: split_beta isAllowed_other_key)

lemma getRemaining_local:
  "requests rl1 k = requests rl2 k \<Longrightarrow> maxRequests rl1 = maxRequests rl2 \<Longrightarrow>
   getRemaining rl1 t k = getRemaining rl2 t k"
  by (cases "requests rl2 k") (simp_all add: getRemaining_def)

text \<open>
  Claim C10. The keys of the limiter are isolated: for distinct keys \<open>k\<close> and \<open>k'\<close>, a call
  of \<^verbatim>\<open>isAllowed\<close> for \<open>k\<close> (and any number of such calls) leaves the entry of \<open>k'\<close> as
  it was, and what \<^verbatim>\<open>getRemaining\<close> and later calls of \<^verbatim>\<open>isAllowed\<close> return for
  \<open>k'\<close> is what they would have returned without the traffic on \<open>k\<close>.
\<close>

theorem limiter_keys_isolated:
  assumes "k \<noteq> k'"
  shows "requests (snd (isAllowed rl now k)) k' = requests rl k'
       \<and> getRemaining (snd (isAllowed rl now k)) t k' = getRemaining rl t k'
       \<and> fst (isAllowed_calls (snd (isAllowed rl now k)) k' ts) = fst (isAllowed_calls rl k' ts)
       \<and> requests (snd (isAllowed_calls rl k traffic)) k' = requests rl k'
       \<and> getRemaining (snd (isAllowed_calls rl k traffic)) t k' = getRemaining rl t k'
       \<and> fst (isAllowed_calls (snd (isAllowed_calls rl k traffic)) k' ts)
           = fst (isAllowed_calls rl k' ts)"
proof -
  have one: "requests (snd (isAllowed rl now k)) k' = requests rl k'"
    using assms by (rule isAllowed_other_key)
  have many: "requests (snd (isAllowed_calls rl k traffic)) k' = requests rl k'"
    using assms by (rule isAllowed_calls_other_key)
  have c1: "windowMs (snd (isAllowed rl now k)) = windowMs rl"
    and c2: "maxRequests (snd (isAllowed rl now k)) = maxRequests rl"
    by (rule isAllowed_config)+
  have d1: "windowMs (snd (isAllowed_calls rl k traffic)) = windowMs rl"
    and d2: "maxRequests (snd (isAllowed_calls rl k traffic)) = maxRequests rl"
    by (rule isAllowed_calls_config)+
  note getRemaining_local [OF one c2] isAllowed_calls_local [OF one c1 c2]
    getRemaining_local [OF many d2] isAllowed_calls_local [OF many d1 d2]
  with one many show ?thesis by blast
qed

theorem limiter_keys_isolated_witness:
  "''10.0.0.1'' \<noteq> ''10.0.0.2''
   \<and> requests (snd (isAllowed (limiter exhausted_state) 1000 ''10.0.0.1'')) ''unknown''
       = Some \<lparr>count = 100, resetTime = 60000\<rparr>
   \<and> getRemaining (snd (isAllowed (limiter exhausted_state) 1000 ''10.0.0.1'')) 2000 ''unknown'' = 0
   \<and> fst (isAllowed_calls (snd (isAllowed (limiter exhausted_state) 1000 ''10.0.0.1''))
            ''unknown'' [2000]) = [False]"
proof -
  have ne: "''10.0.0.1'' \<noteq> ''unknown''" by simp
  have e: "requests (limiter exhausted_state) ''unknown'' = Some \<lparr>count = 100, resetTime = 60000\<rparr>"
    by (simp add: exhausted_state_def)
  have g: "getRemaining (limiter exhausted_state) 2000 ''unknown'' = 0"
    by (simp add: getRemaining_def exhausted_state_def rateLimiter_def new_RateLimiter_def
        RATE_LIMIT_MAX_REQUESTS_def)
  have a: "fst (isAllowed_calls (limiter exhausted_state) ''unknown'' [2000]) = [False]"
    by (simp add: isAllowed_def exhausted_state_def rateLimiter_def new_RateLimiter_def
        RATE_LIMIT_MAX_REQUESTS_def)
  from limiter_keys_isolated [OF ne, of "limiter exhausted_state" 1000 2000 "[2000]" "[]"] e g a
  show ?thesis by simp
qed

text \<open>
  Claim C9. A request that the limiter denies, answered with status 429, changes no shared
  state: the denied call of \<^verbatim>\<open>isAllowed\<close> leaves the limiter, and so the count and
  the reset time of the stored entry, as they were, and the history is not modified.
\<close>

theorem denied_request_mutates_nothing:
  assumes "status (fst (POST st req)) = 429"
  shows "\<not> fst (isAllowed (limiter st) (post_now req)
                (clientIp (post_x_forwarded_for req) (post_x_real_ip req)))
       \<and> snd (isAllowed (limiter st) (post_now req)
                (clientIp (post_x_forwarded_for req) (post_x_real_ip req))) = limiter st
       \<and> snd (POST st req) = st"
proof -
  let ?r = "isAllowed (limiter st) (post_now req)
              (clientIp (post_x_forwarded_for req) (post_x_real_ip req))"
  obtain b rl where r: "?r = (b, rl)" by (cases ?r)
  have "\<not> b"
  proof
    assume b
    with r have "status (fst (POST st req)) \<noteq> 429"
      by (simp add: POST_def Let_def split: request_body.splits option.splits)
    with assms show False by simp
  qed
  with r have "\<not> fst ?r" by simp
  then have same: "snd ?r = limiter st" by (rule isAllowed_denied_unchanged)
  with r have "rl = limiter st" by simp
  with r \<open>\<not> b\<close> have "snd (POST st req) = st" by (simp add: POST_def)
  with \<open>\<not> fst ?r\<close> same show ?thesis by simp
qed

theorem denied_request_mutates_nothing_witness:
  "status (fst (POST exhausted_state sample_post)) = 429
   \<and> snd (POST exhausted_state sample_post) = exhausted_state"
proof -
  have s: "status (fst (POST exhausted_state sample_post)) = 429"
    by (simp add: POST_def exhausted_state_def sample_post_def isAllowed_def clientIp_def
        truthy_def rateLimiter_def new_RateLimiter_def RATE_LIMIT_MAX_REQUESTS_def)
  with denied_request_mutates_nothing [OF s] show ?thesis by simp
qed

lemma isAllowed_calls_append:
  "isAllowed_calls rl k (xs @ ys) =
     (fst (isAllowed_calls rl k xs) @ fst (isAllowed_calls (snd (isAllowed_calls rl k xs)) k ys),
      snd (isAllowed_calls (snd (isAllowed_calls rl k xs)) k ys))"
  by (induction xs arbitrary: rl) (simp_all add: split_beta)

lemma isAllowed_fresh:
  assumes "requests rl k = None \<or> (\<exists>e. requests rl k = Some e \<and> now > resetTime e)"
  shows "isAllowed rl now k =
     (True, rl\<lparr>requests := (requests rl)(k \<mapsto> \<lparr>count = 1, resetTime = now + windowMs rl\<rparr>)\<rparr>)"
  using assms by (auto simp: isAllowed_def)

lemma isAllowed_within:
  assumes "requests rl k = Some e" "t \<le> resetTime e" "count e < maxRequests rl"
  shows "isAllowed rl t k =
     (True, rl\<lparr>requests := (requests rl)(k \<mapsto> e\<lparr>count := count e + 1\<rparr>)\<rparr>)"
  using assms by (simp add: isAllowed_def)

lemma isAllowed_full:
  assumes "requests rl k = Some e" "t \<le> resetTime e" "maxRequests rl \<le> count e"
  shows "isAllowed rl t k = (False, rl)"
  using assms by (simp add: isAllowed_def)

lemma allowed_run:
  assumes "requests rl k = Some e" "\<forall>t \<in> set ts. t \<le> resetTime e"
    "count e + int (length ts) \<le> maxRequests rl"
  shows "isAllowed_calls rl k ts =
     (replicate (length ts) True,
      rl\<lparr>requests := (requests rl)(k \<mapsto> e\<lparr>count := count e + int (length ts)\<rparr>)\<rparr>)"
  using assms
proof (induction ts arbitrary: rl e)
  case Nil
  then have "(requests rl)(k \<mapsto> e) = requests rl" by (simp add: fun_upd_idem)
  then show ?case by simp
next
  case (Cons t ts)
  let ?e = "e\<lparr>count := count e + 1\<rparr>"
  let ?rl = "rl\<lparr>requests := (requests rl)(k \<mapsto> ?e)\<rparr>"
  let ?rl' = "?rl\<lparr>requests := (requests ?rl)(k \<mapsto> ?e\<lparr>count := count ?e + int (length ts)\<rparr>)\<rparr>"
  from Cons.prems have step: "isAllowed rl t k = (True, ?rl)"
    by (intro isAllowed_within) simp_all
  have ih: "isAllowed_calls ?rl k ts = (replicate (length ts) True, ?rl')"
    using Cons.prems by (intro Cons.IH) simp_all
  have run: "isAllowed_calls rl k (t # ts) = (True # replicate (length ts) True, ?rl')"
    by (simp only: isAllowed_calls.simps step ih prod.case)
  have upd: "?rl' =
      rl\<lparr>requests := (requests rl)(k \<mapsto> e\<lparr>count := count e + int (length (t # ts))\<rparr>)\<rparr>"
    by (simp add: add.assoc)
  have rep: "replicate (length (t # ts)) True = True # replicate (length ts) True" by simp
  show ?case by (simp only: run upd rep)
qed

text \<open>
  Claim C4, as amended. For a limiter with window \<open>W\<close> and capacity \<open>C \<ge> 1\<close> and a key with
  no live entry at the first call: each of the first \<open>C\<close> consecutive calls of
  \<^verbatim>\<open>isAllowed\<close> within the window returns true, the next call within the window
  returns false, and the call after more than \<open>W\<close> has passed since the first one returns
  true and replaces the entry with count 1.
\<close>

theorem limiter_window:
  assumes cap: "1 \<le> maxRequests rl"
    and fresh: "requests rl k = None \<or> (\<exists>e. requests rl k = Some e \<and> t0 > resetTime e)"
    and len: "int (length ts) = maxRequests rl - 1"
    and within: "\<forall>t \<in> set ts. t \<le> t0 + windowMs rl"
    and denied: "t' \<le> t0 + windowMs rl"
    and later: "t'' > t0 + windowMs rl"
  shows "fst (isAllowed_calls rl k (t0 # ts)) = replicate (nat (maxRequests rl)) True
       \<and> fst (isAllowed_calls rl k ((t0 # ts) @ [t'])) = replicate (nat (maxRequests rl)) True @ [False]
       \<and> fst (isAllowed_calls rl k ((t0 # ts) @ [t', t'']))
           = replicate (nat (maxRequests rl)) True @ [False, True]
       \<and> requests (snd (isAllowed_calls rl k ((t0 # ts) @ [t', t''])) ) k
           = Some \<lparr>count = 1, resetTime = t'' + windowMs rl\<rparr>"
proof -
  let ?e1 = "\<lparr>count = 1, resetTime = t0 + windowMs rl\<rparr>"
  let ?rl1 = "rl\<lparr>requests := (requests rl)(k \<mapsto> ?e1)\<rparr>"
  let ?eC = "?e1\<lparr>count := count ?e1 + int (length ts)\<rparr>"
  let ?rlC = "?rl1\<lparr>requests := (requests ?rl1)(k \<mapsto> ?eC)\<rparr>"
  have first: "isAllowed rl t0 k = (True, ?rl1)"
    using fresh by (rule isAllowed_fresh)
  have run: "isAllowed_calls ?rl1 k ts = (replicate (length ts) True, ?rlC)"
    using within len by (intro allowed_run) simp_all
  have n: "nat (maxRequests rl) = Suc (length ts)" using len cap by linarith
  have "isAllowed_calls rl k (t0 # ts) = (True # replicate (length ts) True, ?rlC)"
    by (simp only: isAllowed_calls.simps first run prod.case)
  then have calls: "isAllowed_calls rl k (t0 # ts) = (replicate (nat (maxRequests rl)) True, ?rlC)"
    by (simp only: n replicate.simps)
  have full: "isAllowed ?rlC t' k = (False, ?rlC)"
    using denied len by (intro isAllowed_full [where e = ?eC]) simp_all
  have again: "isAllowed ?rlC t'' k =
      (True, ?rlC\<lparr>requests := (requests ?rlC)(k \<mapsto> \<lparr>count = 1, resetTime = t'' + windowMs ?rlC\<rparr>)\<rparr>)"
    using later by (intro isAllowed_fresh) simp
  have tail1: "isAllowed_calls ?rlC k [t'] = ([False], ?rlC)"
    by (simp only: isAllowed_calls.simps full prod.case)
  have tail2: "isAllowed_calls ?rlC k [t', t''] =
      ([False, True],
       ?rlC\<lparr>requests := (requests ?rlC)(k \<mapsto> \<lparr>count = 1, resetTime = t'' + windowMs ?rlC\<rparr>)\<rparr>)"
    by (simp only: isAllowed_calls.simps full again prod.case)
  have a1: "fst (isAllowed_calls rl k ((t0 # ts) @ [t'])) = replicate (nat (maxRequests rl)) True @ [False]"
    by (simp only: isAllowed_calls_append calls tail1 fst_conv snd_conv)
  have a2: "isAllowed_calls rl k ((t0 # ts) @ [t', t'']) =
      (replicate (nat (maxRequests rl)) True @ [False, True],
       ?rlC\<lparr>requests := (requests ?rlC)(k \<mapsto> \<lparr>count = 1, resetTime = t'' + windowMs ?rlC\<rparr>)\<rparr>)"
    by (simp only: isAllowed_calls_append calls tail2 fst_conv snd_conv)
  have c: "fst (isAllowed_calls rl k (t0 # ts)) = replicate (nat (maxRequests rl)) True"
    by (simp only: calls fst_conv)
  have e: "requests (snd (isAllowed_calls rl k ((t0 # ts) @ [t', t'']))) k
      = Some \<lparr>count = 1, resetTime = t'' + windowMs rl\<rparr>"
    by (simp only: a2 snd_conv) simp
  have b: "fst (isAllowed_calls rl k ((t0 # ts) @ [t', t'']))
      = replicate (nat (maxRequests rl)) True @ [False, True]"
    by (simp only: a2 fst_conv)
  from c a1 b e show ?thesis by blast
qed

theorem limiter_window_witness:
  "fst (isAllowed_calls (new_RateLimiter 1000 3) ''user1'' ([0, 10, 20] @ [30, 1001]))
     = [True, True, True, False, True]
   \<and> requests (snd (isAllowed_calls (new_RateLimiter 1000 3) ''user1'' ([0, 10, 20] @ [30, 1001])))
       ''user1'' = Some \<lparr>count = 1, resetTime = 2001\<rparr>"
proof -
  let ?rl = "new_RateLimiter 1000 3"
  have cap: "1 \<le> maxRequests ?rl" by (simp add: new_RateLimiter_def)
  have fresh: "requests ?rl ''user1'' = None
      \<or> (\<exists>e. requests ?rl ''user1'' = Some e \<and> 0 > resetTime e)"
    by (simp add: new_RateLimiter_def)
  have len: "int (length [10, 20 :: int]) = maxRequests ?rl - 1" by (simp add: new_RateLimiter_def)
  have within: "\<forall>t \<in> set [10, 20 :: int]. t \<le> 0 + windowMs ?rl" by (simp add: new_RateLimiter_def)
  have denied: "(30 :: int) \<le> 0 + windowMs ?rl" by (simp add: new_RateLimiter_def)
  have later: "(1001 :: int) > 0 + windowMs ?rl" by (simp add: new_RateLimiter_def)
  have r: "replicate (nat (maxRequests ?rl)) True = [True, True, True]"
    by (simp add: new_RateLimiter_def numeral_3_eq_3)
  have w: "windowMs ?rl = 1000" by (simp add: new_RateLimiter_def)
  from limiter_window [OF cap fresh len within denied later] r w show ?thesis by simp
qed

text \<open>
  The claim as stated fails for capacity 0: the first call for a key with no entry, which
  is then the call after the first \<open>C\<close>, returns true.
\<close>

theorem limiter_zero_capacity_counterexample:
  "maxRequests (new_RateLimiter 1000 0) = 0
   \<and> requests (new_RateLimiter 1000 0) ''user1'' = None
   \<and> fst (isAllowed (new_RateLimiter 1000 0) 0 ''user1'') = True"
  by (simp add: new_RateLimiter_def isAllowed_def)

section \<open>Properties: the search service\<close>

lemma search_in_fallback:
  "useFallback svc \<Longrightarrow> search svc w query = (searchWithFallback query, FallbackDirect, svc)"
  by (simp add: search_def)

lemma search_path_failed:
  "fst (snd (search svc w query)) = VectorFailedThenFallback \<longleftrightarrow>
     \<not> useFallback svc \<and> searchWithPinecone svc w query = None"
  by (simp add: search_def split: option.splits)

lemma search_failed:
  assumes "fst (snd (search svc w query)) = VectorFailedThenFallback"
  shows "search svc w query
       = (searchWithFallback query, VectorFailedThenFallback, svc\<lparr>useFallback := True\<rparr>)"
  using assms by (simp add: search_def split: option.splits if_splits)

lemma searches_in_fallback:
  "useFallback svc \<Longrightarrow>
   searches svc reqs = map (\<lambda>(w, query). (searchWithFallback query, FallbackDirect)) reqs"
  by (induction reqs arbitrary: svc) (auto simp: search_in_fallback)

lemma handleFAQ_failed:
  assumes "fst (snd (search svc w query)) = VectorFailedThenFallback"
  shows "handleFAQ svc w query
       = (\<lparr>answer = (if searchWithFallback query = [] then NO_INFORMATION
                     else simple_synthesis (searchWithFallback query)),
           matches = searchWithFallback query\<rparr>,
          VectorFailedThenFallback, svc\<lparr>useFallback := True\<rparr>)"
    and "generative_called (synthesizeAnswer (snd (snd (search svc w query))) w query
           (fst (search svc w query))) = False"
  using search_failed [OF assms]
  by (simp_all add: handleFAQ_def synthesizeAnswer_def)

lemma new_service_with_credentials:
  assumes "truthy (PINECONE_API_KEY w)" "truthy (OPENAI_API_KEY w)"
    "pinecone_constructs w" "openai_constructs w"
  shows "new_FAQSearchService w = \<lparr>pinecone = True, openai = True, useFallback = False\<rparr>"
  using assms by (simp add: new_FAQSearchService_def)

lemma search_new_service_path:
  assumes "truthy (PINECONE_API_KEY w)" "truthy (OPENAI_API_KEY w)"
    "pinecone_constructs w" "openai_constructs w"
  shows "fst (snd (search (new_FAQSearchService w) w query))
       = (if vector_query w query = None then VectorFailedThenFallback else VectorOk)"
  by (simp add: new_service_with_credentials [OF assms] search_def searchWithPinecone_def
      split: option.splits)

lemma GET_200:
  assumes "status (fst (GET st w req)) = 200"
  shows "fst (snd (GET st w req))
       = Some (fst (snd (search (new_FAQSearchService w) w (trim (the (q req))))))"
proof -
  let ?r = "isAllowed (limiter st) (get_now req)
              (clientIp (get_x_forwarded_for req) (get_x_real_ip req))"
  obtain b rl where r: "?r = (b, rl)" by (cases ?r)
  from assms r have b by (cases b) (simp_all add: GET_def)
  with assms r obtain query where qu: "q req = Some query"
    by (cases "q req") (simp_all add: GET_def)
  with assms r \<open>b\<close> have "query \<noteq> [] \<and> trim query \<noteq> []"
    by (auto simp: GET_def split: if_splits)
  with r \<open>b\<close> qu show ?thesis
    by (simp add: GET_def handleFAQ_def Let_def split_beta)
qed

lemma serve_last:
  "\<exists>st'. last (serve st (before @ [(w, req)])) = (fst (GET st' w req), fst (snd (GET st' w req)))"
proof (induction before arbitrary: st)
  case Nil
  show ?case by (intro exI [of _ st]) (simp add: split_beta)
next
  case (Cons x before)
  obtain w0 r0 where x: "x = (w0, r0)" by (cases x)
  from Cons [of "snd (snd (GET st w0 r0))"] obtain st' where
    l: "last (serve (snd (snd (GET st w0 r0))) (before @ [(w, req)]))
        = (fst (GET st' w req), fst (snd (GET st' w req)))" by blast
  have ne: "serve (snd (snd (GET st w0 r0))) (before @ [(w, req)]) \<noteq> []"
    by (cases before) (auto simp: split_beta)
  from l ne show ?case by (intro exI [of _ st']) (simp add: x split_beta)
qed

text \<open>
  The handler constructs a new instance for each request, so the path of a request is that
  of a search on a new instance.
\<close>

lemma GET_path:
  assumes "fst (isAllowed (limiter st) (get_now req)
             (clientIp (get_x_forwarded_for req) (get_x_real_ip req)))"
    and "q req = Some query" and "trim query \<noteq> []"
  shows "fst (snd (GET st w req))
       = Some (fst (snd (search (new_FAQSearchService w) w (trim query))))"
proof -
  from assms(3) have "query \<noteq> []" by (auto simp: trim_def)
  with assms show ?thesis
    by (simp add: GET_def handleFAQ_def Let_def split_beta split: bool.splits)
qed

lemma GET_state:
  "snd (snd (GET st w req))
     = st\<lparr>limiter := snd (isAllowed (limiter st) (get_now req)
                          (clientIp (get_x_forwarded_for req) (get_x_real_ip req)))\<rparr>"
  by (cases "isAllowed (limiter st) (get_now req)
               (clientIp (get_x_forwarded_for req) (get_x_real_ip req))")
     (simp add: GET_def Let_def split_beta split: bool.splits option.splits)

lemma serve_paths_two:
  "map snd (serve st [(w1, r1), (w2, r2)])
     = [fst (snd (GET st w1 r1)), fst (snd (GET (snd (snd (GET st w1 r1))) w2 r2))]"
  by (simp add: split_beta)


lemma GET_admitted_200:
  assumes "fst (isAllowed (limiter st) (get_now req)
             (clientIp (get_x_forwarded_for req) (get_x_real_ip req)))"
    and "q req = Some query" and "trim query \<noteq> []"
  shows "status (fst (GET st w req)) = 200"
proof -
  from assms(3) have "query \<noteq> []" by (auto simp: trim_def)
  with assms show ?thesis
    by (simp add: GET_def handleFAQ_def Let_def split_beta split: bool.splits)
qed

lemma serve_last_two:
  "last (serve st ([(w1, r1)] @ [(w2, r2)]))
     = (fst (GET (snd (snd (GET st w1 r1))) w2 r2), fst (snd (GET (snd (snd (GET st w1 r1))) w2 r2)))"
  by (simp add: split_beta)

lemma sample_fallback_matches:
  "map match_text (searchWithFallback ''medication list'')
     = [FALLBACK_CORPUS ! 1, FALLBACK_CORPUS ! 4, FALLBACK_CORPUS ! 0]"
  by code_simp

text \<open>
  Claim C1, as amended. The downgrade is one-way for the lifetime of an instance of the
  search service: when a failure of the embedding or of the index query during one search
  forces the fallback path, the instance is in fallback mode from then on, every later
  search on it uses the fallback path and does not attempt the vector path again, whatever
  the services would answer then, and the answer of the failing request is synthesized
  from the fallback matches without a chat completion. The handler constructs a new
  instance for every request: whatever the process served before, a request answered with
  status 200 while both credentials are present and both clients construct attempts the
  vector path, and takes it when the embedding and the index query succeed.
\<close>

theorem downgrade_one_way_per_instance:
  "(fst (snd (search svc w1 q1)) = VectorFailedThenFallback \<longrightarrow>
       useFallback (snd (snd (search svc w1 q1)))
     \<and> searches svc ((w1, q1) # later)
         = (searchWithFallback q1, VectorFailedThenFallback)
           # map (\<lambda>(w, query). (searchWithFallback query, FallbackDirect)) later
     \<and> handleFAQ svc w1 q1
         = (\<lparr>answer = (if searchWithFallback q1 = [] then NO_INFORMATION
                       else simple_synthesis (searchWithFallback q1)),
             matches = searchWithFallback q1\<rparr>,
            VectorFailedThenFallback, svc\<lparr>useFallback := True\<rparr>)
     \<and> generative_called (synthesizeAnswer (snd (snd (search svc w1 q1))) w1 q1
           (fst (search svc w1 q1))) = False)
   \<and> (truthy (PINECONE_API_KEY w) \<and> truthy (OPENAI_API_KEY w)
       \<and> pinecone_constructs w \<and> openai_constructs w
       \<and> status (fst (last (serve st (before @ [(w, req)])))) = 200 \<longrightarrow>
       snd (last (serve st (before @ [(w, req)])))
         = Some (if vector_query w (trim (the (q req))) = None then VectorFailedThenFallback
                 else VectorOk))"
proof (intro conjI impI)
  assume a: "fst (snd (search svc w1 q1)) = VectorFailedThenFallback"
  have s: "search svc w1 q1
      = (searchWithFallback q1, VectorFailedThenFallback, svc\<lparr>useFallback := True\<rparr>)"
    using a by (rule search_failed)
  then show "useFallback (snd (snd (search svc w1 q1)))" by simp
  have "searches (svc\<lparr>useFallback := True\<rparr>) later
      = map (\<lambda>(w, query). (searchWithFallback query, FallbackDirect)) later"
    by (rule searches_in_fallback) simp
  with s show "searches svc ((w1, q1) # later)
         = (searchWithFallback q1, VectorFailedThenFallback)
           # map (\<lambda>(w, query). (searchWithFallback query, FallbackDirect)) later"
    by simp
  from a show "handleFAQ svc w1 q1
         = (\<lparr>answer = (if searchWithFallback q1 = [] then NO_INFORMATION
                       else simple_synthesis (searchWithFallback q1)),
             matches = searchWithFallback q1\<rparr>,
            VectorFailedThenFallback, svc\<lparr>useFallback := True\<rparr>)"
    by (rule handleFAQ_failed(1))
  from a show "generative_called (synthesizeAnswer (snd (snd (search svc w1 q1))) w1 q1
           (fst (search svc w1 q1))) = False"
    by (rule handleFAQ_failed(2))
next
  assume b: "truthy (PINECONE_API_KEY w) \<and> truthy (OPENAI_API_KEY w)
       \<and> pinecone_constructs w \<and> openai_constructs w
       \<and> status (fst (last (serve st (before @ [(w, req)])))) = 200"
  obtain st' where l: "last (serve st (before @ [(w, req)]))
      = (fst (GET st' w req), fst (snd (GET st' w req)))"
    using serve_last by blast
  with b have "status (fst (GET st' w req)) = 200" by simp
  then have "fst (snd (GET st' w req))
       = Some (fst (snd (search (new_FAQSearchService w) w (trim (the (q req))))))"
    by (rule GET_200)
  moreover from b have "fst (snd (search (new_FAQSearchService w) w (trim (the (q req)))))
       = (if vector_query w (trim (the (q req))) = None then VectorFailedThenFallback else VectorOk)"
    by (intro search_new_service_path) simp_all
  ultimately show "snd (last (serve st (before @ [(w, req)])))
         = Some (if vector_query w (trim (the (q req))) = None then VectorFailedThenFallback
                 else VectorOk)"
    using l by simp
qed

theorem downgrade_one_way_per_instance_witness:
  "fst (snd (search vector_service world_down ''medication list'')) = VectorFailedThenFallback
   \<and> searchWithPinecone vector_service world_up ''medication list''
       = Some [\<lparr>match_text = ''Keep an up-to-date medication list.'', score = 9 / 10\<rparr>]
   \<and> map snd (searches vector_service
        [(world_down, ''medication list''), (world_up, ''medication list'')])
       = [VectorFailedThenFallback, FallbackDirect]
   \<and> answer (fst (handleFAQ vector_service world_down ''medication list''))
       = FALLBACK_CORPUS ! 1 @ GUIDANCE_SUFFIX
   \<and> truthy (PINECONE_API_KEY world_up) \<and> truthy (OPENAI_API_KEY world_up)
   \<and> pinecone_constructs world_up \<and> openai_constructs world_up
   \<and> status (fst (last (serve initial_state ([(world_down, sample_get)] @ [(world_up, sample_get)]))))
       = 200
   \<and> snd (last (serve initial_state ([(world_down, sample_get)] @ [(world_up, sample_get)])))
       = Some VectorOk"
proof -
  let ?q = "''medication list''"
  let ?st = "snd (snd (GET initial_state world_down sample_get))"
  have f: "fst (snd (search vector_service world_down ?q)) = VectorFailedThenFallback"
    by (simp add: search_def searchWithPinecone_def vector_service_def world_down_def world_up_def)
  have u: "searchWithPinecone vector_service world_up ?q
       = Some [\<lparr>match_text = ''Keep an up-to-date medication list.'', score = 9 / 10\<rparr>]"
    by (simp add: searchWithPinecone_def vector_service_def world_up_def)
  have k: "truthy (PINECONE_API_KEY world_up) \<and> truthy (OPENAI_API_KEY world_up)
     \<and> pinecone_constructs world_up \<and> openai_constructs world_up"
    by (simp add: world_up_def truthy_def)
  have t: "trim ?q = ?q" by code_simp
  have a: "fst (isAllowed (limiter ?st) (get_now sample_get)
             (clientIp (get_x_forwarded_for sample_get) (get_x_real_ip sample_get)))"
    by (simp add: GET_state isAllowed_def initial_state_def rateLimiter_def
        new_RateLimiter_def sample_get_def clientIp_def truthy_def
        RATE_LIMIT_MAX_REQUESTS_def)
  have "status (fst (GET ?st world_up sample_get)) = 200"
    using a by (rule GET_admitted_200 [where query = ?q]) (simp_all add: sample_get_def t)
  then have s: "status (fst (last (serve initial_state
      ([(world_down, sample_get)] @ [(world_up, sample_get)])))) = 200"
    by (simp only: serve_last_two fst_conv)
  have v: "vector_query world_up (trim (the (q sample_get))) \<noteq> None"
    by (simp add: world_up_def)
  have "length (map match_text (searchWithFallback ?q)) = 3"
    by (simp only: sample_fallback_matches) simp
  then have len: "length (searchWithFallback ?q) = 3" by simp
  then have ne: "searchWithFallback ?q \<noteq> []" by auto
  then have "match_text (hd (searchWithFallback ?q)) = hd (map match_text (searchWithFallback ?q))"
    by (simp add: hd_map)
  then have "match_text (hd (searchWithFallback ?q)) = FALLBACK_CORPUS ! 1"
    by (simp only: sample_fallback_matches list.sel)
  note ms = ne len this
  note inst = downgrade_one_way_per_instance [of vector_service world_down ?q
      "[(world_up, ?q)]" world_up initial_state "[(world_down, sample_get)]" sample_get]
  from inst f have "handleFAQ vector_service world_down ?q
         = (\<lparr>answer = (if searchWithFallback ?q = [] then NO_INFORMATION
                       else simple_synthesis (searchWithFallback ?q)),
             matches = searchWithFallback ?q\<rparr>,
            VectorFailedThenFallback, vector_service\<lparr>useFallback := True\<rparr>)"
    by blast
  with ms have an: "answer (fst (handleFAQ vector_service world_down ?q))
       = FALLBACK_CORPUS ! 1 @ GUIDANCE_SUFFIX"
    by (simp add: simple_synthesis_def)
  from inst f have "searches vector_service ((world_down, ?q) # [(world_up, ?q)])
         = (searchWithFallback ?q, VectorFailedThenFallback)
           # map (\<lambda>(w, query). (searchWithFallback query, FallbackDirect)) [(world_up, ?q)]"
    by blast
  then have p: "map snd (searches vector_service [(world_down, ?q), (world_up, ?q)])
       = [VectorFailedThenFallback, FallbackDirect]"
    by simp
  from inst k s v have l: "snd (last (serve initial_state
      ([(world_down, sample_get)] @ [(world_up, sample_get)]))) = Some VectorOk"
    by simp
  from f u p an k s l show ?thesis by blast
qed

text \<open>
  The claim as stated fails: with both credentials present, a request served after one
  whose vector search failed attempts the vector path again, and succeeds.
\<close>

theorem later_request_retries_vector_counterexample:
  "truthy (PINECONE_API_KEY world_down) \<and> truthy (OPENAI_API_KEY world_down)
   \<and> truthy (PINECONE_API_KEY world_up) \<and> truthy (OPENAI_API_KEY world_up)
   \<and> map snd (serve initial_state [(world_down, sample_get), (world_up, sample_get)])
       = [Some VectorFailedThenFallback, Some VectorOk]"
proof -
  have t: "trim ''medication list'' = ''medication list''"
    by code_simp
  have k: "truthy (PINECONE_API_KEY world_down) \<and> truthy (OPENAI_API_KEY world_down)
     \<and> truthy (PINECONE_API_KEY world_up) \<and> truthy (OPENAI_API_KEY world_up)"
    by (simp add: world_down_def world_up_def truthy_def)
  have n1: "new_FAQSearchService world_down = vector_service"
    and n2: "new_FAQSearchService world_up = vector_service"
    by (simp_all add: new_FAQSearchService_def world_down_def world_up_def truthy_def
        vector_service_def)
  have p1: "fst (snd (search vector_service world_down ''medication list'')) = VectorFailedThenFallback"
    by (simp add: search_def searchWithPinecone_def vector_service_def world_down_def world_up_def)
  have p2: "fst (snd (search vector_service world_up ''medication list'')) = VectorOk"
    by (simp add: search_def searchWithPinecone_def vector_service_def world_up_def)
  have a1: "fst (isAllowed (limiter initial_state) (get_now sample_get)
             (clientIp (get_x_forwarded_for sample_get) (get_x_real_ip sample_get)))"
    by (simp add: isAllowed_def initial_state_def rateLimiter_def new_RateLimiter_def)
  have g1: "fst (snd (GET initial_state world_down sample_get)) = Some VectorFailedThenFallback"
    using GET_path [OF a1, of "''medication list''" world_down]
    by (simp add: t n1 p1 sample_get_def)
  let ?st = "snd (snd (GET initial_state world_down sample_get))"
  have a2: "fst (isAllowed (limiter ?st) (get_now sample_get)
             (clientIp (get_x_forwarded_for sample_get) (get_x_real_ip sample_get)))"
    by (simp add: GET_state isAllowed_def initial_state_def rateLimiter_def
        new_RateLimiter_def sample_get_def clientIp_def truthy_def
        RATE_LIMIT_MAX_REQUESTS_def)
  have g2: "fst (snd (GET ?st world_up sample_get)) = Some VectorOk"
    using GET_path [OF a2, of "''medication list''" world_up]
    by (simp add: t n2 p2 sample_get_def)
  from k g1 g2 show ?thesis by (simp only: serve_paths_two simp_thms)
qed

section \<open>Properties: answer synthesis\<close>

text \<open>
  Claim C5, as amended. For every query and every single match: when the service has no
  chat client or is in fallback mode, the synthesizer returns the text of the match
  verbatim and does not call the chat completion; when it has a client and is not in
  fallback mode, it calls the chat completion, and the answer is the text of the match
  verbatim if the call throws, the content of the completion if that is not empty, and the
  fixed text \<open>Unable to generate response.\<close> if the completion has no content or an
  empty one.
\<close>

theorem single_match_verbatim:
  "(\<not> openai svc \<or> useFallback svc \<longrightarrow>
      synthesizeAnswer svc w query [m] = \<lparr>answer_text = match_text m, generative_called = False\<rparr>)
   \<and> (openai svc \<and> \<not> useFallback svc \<and> chat w (prompt query [m]) = ChatThrows \<longrightarrow>
      synthesizeAnswer svc w query [m] = \<lparr>answer_text = match_text m, generative_called = True\<rparr>)
   \<and> (openai svc \<and> \<not> useFallback svc \<and> chat w (prompt query [m]) = ChatReturns (Some content)
        \<and> content \<noteq> [] \<longrightarrow>
      synthesizeAnswer svc w query [m] = \<lparr>answer_text = content, generative_called = True\<rparr>)
   \<and> (openai svc \<and> \<not> useFallback svc
        \<and> (chat w (prompt query [m]) = ChatReturns None
           \<or> chat w (prompt query [m]) = ChatReturns (Some [])) \<longrightarrow>
      synthesizeAnswer svc w query [m]
        = \<lparr>answer_text = ''Unable to generate response.'', generative_called = True\<rparr>)"
  by (auto simp: synthesizeAnswer_def simple_synthesis_def UNABLE_def)

theorem single_match_verbatim_witness:
  "useFallback fallback_service
   \<and> synthesizeAnswer fallback_service world_up ''medication list'' [one_match]
       = \<lparr>answer_text = ''Keep an up-to-date medication list.'', generative_called = False\<rparr>
   \<and> chat world_chat_down (prompt ''medication list'' [one_match]) = ChatThrows
   \<and> synthesizeAnswer vector_service world_chat_down ''medication list'' [one_match]
       = \<lparr>answer_text = ''Keep an up-to-date medication list.'', generative_called = True\<rparr>
   \<and> chat world_up (prompt ''medication list'' [one_match]) = ChatReturns (Some ''Generated answer.'')
   \<and> synthesizeAnswer vector_service world_up ''medication list'' [one_match]
       = \<lparr>answer_text = ''Generated answer.'', generative_called = True\<rparr>
   \<and> chat world_chat_silent (prompt ''medication list'' [one_match]) = ChatReturns None
   \<and> synthesizeAnswer vector_service world_chat_silent ''medication list'' [one_match]
       = \<lparr>answer_text = ''Unable to generate response.'', generative_called = True\<rparr>"
proof -
  have u: "useFallback fallback_service" by (simp add: fallback_service_def)
  have v: "openai vector_service \<and> \<not> useFallback vector_service"
    by (simp add: vector_service_def)
  have c1: "chat world_chat_down (prompt ''medication list'' [one_match]) = ChatThrows"
    by (simp add: world_chat_down_def)
  have c2: "chat world_up (prompt ''medication list'' [one_match])
      = ChatReturns (Some ''Generated answer.'')"
    by (simp add: world_up_def)
  have c3: "chat world_chat_silent (prompt ''medication list'' [one_match]) = ChatReturns None"
    by (simp add: world_chat_silent_def)
  have m: "match_text one_match = ''Keep an up-to-date medication list.''"
    by (simp add: one_match_def)
  from single_match_verbatim [of fallback_service world_up "''medication list''" one_match] u m
  have r0: "synthesizeAnswer fallback_service world_up ''medication list'' [one_match]
       = \<lparr>answer_text = ''Keep an up-to-date medication list.'', generative_called = False\<rparr>"
    by simp
  from single_match_verbatim [of vector_service world_chat_down "''medication list''" one_match]
    v c1 m
  have r1: "synthesizeAnswer vector_service world_chat_down ''medication list'' [one_match]
       = \<lparr>answer_text = ''Keep an up-to-date medication list.'', generative_called = True\<rparr>"
    by simp
  from single_match_verbatim [of vector_service world_up "''medication list''" one_match
      "''Generated answer.''"] v c2
  have r2: "synthesizeAnswer vector_service world_up ''medication list'' [one_match]
       = \<lparr>answer_text = ''Generated answer.'', generative_called = True\<rparr>"
    by simp
  from single_match_verbatim [of vector_service world_chat_silent "''medication list''" one_match]
    v c3
  have r3: "synthesizeAnswer vector_service world_chat_silent ''medication list'' [one_match]
       = \<lparr>answer_text = ''Unable to generate response.'', generative_called = True\<rparr>"
    by simp
  from u c1 c2 c3 r0 r1 r2 r3 show ?thesis by blast
qed

text \<open>
  The claim as stated fails: with a chat client and outside fallback mode, the answer to a
  single match is the text of the chat completion.
\<close>

theorem single_match_generative_counterexample:
  "answer_text (synthesizeAnswer vector_service world_up ''medication list'' [one_match])
     \<noteq> match_text one_match
   \<and> generative_called (synthesizeAnswer vector_service world_up ''medication list'' [one_match])"
  by (simp add: synthesizeAnswer_def vector_service_def world_up_def one_match_def)

section \<open>Properties: fallback search\<close>

lemma set_insert_cmp: "set (insert_cmp cmp x ys) = insert x (set ys)"
  by (induction ys) auto

lemma set_sort_cmp: "set (sort_cmp cmp xs) = set xs"
  by (induction xs) (simp_all add: sort_cmp_def set_insert_cmp)

lemma length_insert_cmp: "length (insert_cmp cmp x ys) = Suc (length ys)"
  by (induction ys) auto

lemma sort_cmp_Cons: "sort_cmp cmp (x # xs) = insert_cmp cmp x (sort_cmp cmp xs)"
  by (simp add: sort_cmp_def)

text \<open>
  Inserting an element whose ordinal is below the ordinals of a ranked list keeps the list
  ranked: the element stops in front of the first element whose score is not higher.
\<close>

lemma ranked_insert_cmp:
  assumes "sorted_wrt ranks_before ys"
    and "\<forall>y \<in> set ys. ordinal (match_text x) < ordinal (match_text y)"
  shows "sorted_wrt ranks_before (insert_cmp (\<lambda>a b. score b - score a) x ys)"
  using assms
proof (induction ys)
  case Nil
  then show ?case by simp
next
  case (Cons y ys)
  show ?case
  proof (cases "score y - score x \<le> 0")
    case True
    have "ranks_before x z" if "z \<in> set (y # ys)" for z
    proof -
      from that Cons.prems(1) have "score z \<le> score y"
        by (auto simp: ranks_before_def)
      with True have "score z \<le> score x" by simp
      moreover from that Cons.prems(2) have "ordinal (match_text x) < ordinal (match_text z)"
        by blast
      ultimately show ?thesis by (auto simp: ranks_before_def)
    qed
    with True Cons.prems(1) show ?thesis by simp
  next
    case False
    then have "ranks_before y x" by (simp add: ranks_before_def)
    moreover from Cons have "sorted_wrt ranks_before (insert_cmp (\<lambda>a b. score b - score a) x ys)"
      by simp
    ultimately show ?thesis
      using False Cons.prems(1) by (auto simp: set_insert_cmp)
  qed
qed

lemma ranked_sort_cmp:
  assumes "sorted_wrt (\<lambda>a b. ordinal (match_text a) < ordinal (match_text b)) xs"
  shows "sorted_wrt ranks_before (sort_cmp (\<lambda>a b. score b - score a) xs)"
  using assms
proof (induction xs)
  case Nil
  then show ?case by (simp add: sort_cmp_def)
next
  case (Cons x xs)
  then have "sorted_wrt ranks_before (sort_cmp (\<lambda>a b. score b - score a) xs)"
    and "\<forall>y \<in> set (sort_cmp (\<lambda>a b. score b - score a) xs).
           ordinal (match_text x) < ordinal (match_text y)"
    by (simp_all add: set_sort_cmp)
  then show ?case
    unfolding sort_cmp_Cons by (rule ranked_insert_cmp)
qed

lemma corpus_ordinals: "sorted_wrt (\<lambda>s t. ordinal s < ordinal t) FALLBACK_CORPUS"
  by code_simp

lemma match_text_score_chunk: "match_text (score_chunk queryTerms txt) = txt"
  by (simp add: score_chunk_def Let_def)

lemma scores_in_corpus_order:
  "sorted_wrt (\<lambda>a b. ordinal (match_text a) < ordinal (match_text b)) (scores query)"
  using corpus_ordinals
  by (simp add: scores_def Let_def sorted_wrt_map match_text_score_chunk)

text \<open>
  Claim C3. For every query the fallback search returns at most 3 matches, each with a
  score above 0, sorted by descending score, matches of equal score in ascending order of
  their ordinal in the corpus.
\<close>

theorem fallback_result_ranked:
  "length (searchWithFallback query) \<le> 3
   \<and> list_all (\<lambda>m. score m > 0) (searchWithFallback query)
   \<and> sorted_wrt ranks_before (searchWithFallback query)"
proof -
  let ?kept = "filter (\<lambda>item. score item > 0) (scores query)"
  let ?sorted = "sort_cmp (\<lambda>a b. score b - score a) ?kept"
  have "set (searchWithFallback query) \<subseteq> set ?sorted"
    by (simp add: searchWithFallback_def set_take_subset)
  then have pos: "list_all (\<lambda>m. score m > 0) (searchWithFallback query)"
    by (auto simp: set_sort_cmp list_all_iff)
  have "sorted_wrt (\<lambda>a b. ordinal (match_text a) < ordinal (match_text b)) ?kept"
    using scores_in_corpus_order by (rule sorted_wrt_filter)
  then have "sorted_wrt ranks_before ?sorted" by (rule ranked_sort_cmp)
  then have "sorted_wrt ranks_before (searchWithFallback query)"
    by (simp add: searchWithFallback_def sorted_wrt_take)
  with pos show ?thesis by (simp add: searchWithFallback_def)
qed

theorem fallback_result_ranked_witness:
  "map match_text (searchWithFallback ''medication adherence diabetes'')
     = [FALLBACK_CORPUS ! 0, FALLBACK_CORPUS ! 2, FALLBACK_CORPUS ! 4]
   \<and> map score (searchWithFallback ''medication adherence diabetes'') = [1, 1, 1]
   \<and> length (searchWithFallback ''medication adherence diabetes'') \<le> 3
   \<and> list_all (\<lambda>m. score m > 0) (searchWithFallback ''medication adherence diabetes'')
   \<and> sorted_wrt ranks_before (searchWithFallback ''medication adherence diabetes'')"
proof -
  have "map match_text (searchWithFallback ''medication adherence diabetes'')
     = [FALLBACK_CORPUS ! 0, FALLBACK_CORPUS ! 2, FALLBACK_CORPUS ! 4]"
    by code_simp
  moreover have "map score (searchWithFallback ''medication adherence diabetes'') = [1, 1, 1]"
    by code_simp
  ultimately show ?thesis
    using fallback_result_ranked [of "''medication adherence diabetes''"] by blast
qed

lemma str_includes_sublist: "str_includes a b \<longleftrightarrow> sublist b a"
  by (induction a) (simp_all add: sublist_Cons_right)

lemma is_space_of_char: "is_space c \<longleftrightarrow> (of_char c :: nat) \<in> {9, 10, 11, 12, 13, 32, 160}"
proof -
  have e: "(c = d) = ((of_char c :: nat) = of_char d)" for d by simp
  show ?thesis
    by (simp only: is_space_def insert_iff empty_iff e) simp
qed

lemma is_space_lower_char: "is_space (lower_char c) = is_space c"
  by (simp add: lower_char_def is_space_of_char)

text \<open>The no-break space separates terms, and is trimmed, like the other white space.\<close>

lemma no_break_space_splits:
  "split_ws (toLowerCase (''Keep'' @ [CHR 0xA0] @ ''List'')) = [''keep'', ''list'']"
  "trim ([CHR 0xA0] @ ''a b '') = ''a b''"
  "map score (scores (''keep'' @ [CHR 0xA0] @ ''list'')) = [0, 1, 0, 0, 1 / 2]"
  by code_simp+

lemma trimmed_toLowerCase: "trimmed s \<Longrightarrow> trimmed (toLowerCase s)"
  by (simp add: trimmed_def toLowerCase_def hd_map last_map is_space_lower_char)

lemma last_dropWhile: "dropWhile P xs \<noteq> [] \<Longrightarrow> last (dropWhile P xs) = last xs"
  by (induction xs) (auto split: if_splits)

lemma dropWhile_keeps_last:
  assumes "xs \<noteq> []" "\<not> P (last xs)"
  shows "dropWhile P xs \<noteq> []" and "last (dropWhile P xs) = last xs"
proof -
  from assms have "\<exists>x \<in> set xs. \<not> P x" using last_in_set by blast
  then show "dropWhile P xs \<noteq> []" by (simp add: dropWhile_eq_Nil_conv)
  then show "last (dropWhile P xs) = last xs" by (rule last_dropWhile)
qed

lemma spec_tokens_dropWhile: "spec_tokens (dropWhile is_space s) = spec_tokens s"
  by (subst (1 2) spec_tokens.simps) simp

lemma spec_tokens_Nil: "spec_tokens [] = []"
  by (subst spec_tokens.simps) simp

lemma spec_tokens_step:
  assumes "s \<noteq> []" "\<not> is_space (hd s)"
  shows "spec_tokens s =
     takeWhile (\<lambda>c. \<not> is_space c) s # spec_tokens (dropWhile (\<lambda>c. \<not> is_space c) s)"
proof -
  from assms have "dropWhile is_space s = s" by (cases s) simp_all
  with assms(1) show ?thesis by (subst spec_tokens.simps) (simp add: Let_def)
qed

lemma split_ws_last:
  "dropWhile (\<lambda>c. \<not> is_space c) s = [] \<Longrightarrow> split_ws s = [takeWhile (\<lambda>c. \<not> is_space c) s]"
  by (subst split_ws.simps) (simp only: Let_def simp_thms if_True)

lemma split_ws_step:
  "dropWhile (\<lambda>c. \<not> is_space c) s \<noteq> [] \<Longrightarrow>
   split_ws s = takeWhile (\<lambda>c. \<not> is_space c) s
                # split_ws (dropWhile is_space (dropWhile (\<lambda>c. \<not> is_space c) s))"
  by (subst split_ws.simps) (simp only: Let_def if_False)

lemma trimmed_rest:
  assumes "trimmed s" "dropWhile (\<lambda>c. \<not> is_space c) s \<noteq> []"
  shows "trimmed (dropWhile is_space (dropWhile (\<lambda>c. \<not> is_space c) s))"
proof -
  let ?rest = "dropWhile (\<lambda>c. \<not> is_space c) s"
  from assms(1) have l: "\<not> is_space (last s)" by (simp add: trimmed_def)
  from assms(2) have "last ?rest = last s" by (rule last_dropWhile)
  with l have l': "\<not> is_space (last ?rest)" by simp
  from assms(2) l' have ne: "dropWhile is_space ?rest \<noteq> []"
    by (rule dropWhile_keeps_last(1))
  from assms(2) l' have "last (dropWhile is_space ?rest) = last ?rest"
    by (rule dropWhile_keeps_last(2))
  with l' have "\<not> is_space (last (dropWhile is_space ?rest))" by simp
  moreover from ne have "\<not> is_space (hd (dropWhile is_space ?rest))" by (rule hd_dropWhile)
  ultimately show ?thesis using ne unfolding trimmed_def by blast
qed

lemma split_ws_trimmed: "trimmed s \<Longrightarrow> split_ws s = spec_tokens s"
proof (induction s rule: split_ws.induct)
  case (1 s)
  let ?tok = "takeWhile (\<lambda>c. \<not> is_space c) s"
  let ?rest = "dropWhile (\<lambda>c. \<not> is_space c) s"
  from "1.prems" have "s \<noteq> []" and "\<not> is_space (hd s)"
    by (simp_all add: trimmed_def)
  then have spec: "spec_tokens s = ?tok # spec_tokens ?rest" by (rule spec_tokens_step)
  show ?case
  proof (cases "?rest = []")
    case True
    then have "split_ws s = [?tok]" by (rule split_ws_last)
    moreover have "spec_tokens ?rest = []" by (simp only: True spec_tokens_Nil)
    ultimately show ?thesis using spec by (simp only:)
  next
    case False
    with "1.prems" have "trimmed (dropWhile is_space ?rest)" by (rule trimmed_rest)
    with False have "split_ws (dropWhile is_space ?rest) = spec_tokens (dropWhile is_space ?rest)"
      by (rule "1.IH" [OF refl refl])
    then have "split_ws (dropWhile is_space ?rest) = spec_tokens ?rest"
      by (simp only: spec_tokens_dropWhile)
    moreover from False have "split_ws s = ?tok # split_ws (dropWhile is_space ?rest)"
      by (rule split_ws_step)
    ultimately show ?thesis using spec by (simp only:)
  qed
qed

text \<open>What the handler passes to the search is such a query.\<close>

lemma trim_trimmed: "trim s \<noteq> [] \<Longrightarrow> trimmed (trim s)"
proof -
  assume ne: "trim s \<noteq> []"
  let ?d = "dropWhile is_space s"
  let ?r = "dropWhile is_space (rev ?d)"
  from ne have r: "?r \<noteq> []" by (simp add: trim_def)
  have d: "?d \<noteq> []"
  proof
    assume "?d = []"
    then have "?r = []" by (simp only: rev.simps dropWhile.simps)
    with r show False by (simp only:)
  qed
  from r have "\<not> is_space (hd ?r)" by (rule hd_dropWhile)
  with r have l: "\<not> is_space (last (trim s))" by (simp add: trim_def last_rev)
  from r have "last ?r = last (rev ?d)" by (rule last_dropWhile)
  with d have "last ?r = hd ?d" by (simp add: last_rev)
  moreover from d have "\<not> is_space (hd ?d)" by (rule hd_dropWhile)
  ultimately have "\<not> is_space (hd (trim s))" using r by (simp add: trim_def hd_rev)
  with ne l show ?thesis by (simp add: trimmed_def)
qed

lemma corpus_trimmed: "list_all trimmed FALLBACK_CORPUS"
  by code_simp

lemma term_matches_spec:
  "trimmed chunk \<Longrightarrow> term_matches (split_ws (toLowerCase chunk)) t = spec_matched chunk t"
  by (simp add: term_matches_def spec_matched_def str_includes_sublist split_ws_trimmed
      trimmed_toLowerCase)

lemma score_chunk_spec:
  assumes "trimmed query" "trimmed chunk"
  shows "score_chunk (split_ws (toLowerCase query)) chunk
       = \<lparr>match_text = chunk, score = spec_score query chunk\<rparr>"
proof -
  from assms(1) have q: "split_ws (toLowerCase query) = spec_tokens (toLowerCase query)"
    by (simp add: split_ws_trimmed trimmed_toLowerCase)
  from assms(2) have "term_matches (split_ws (toLowerCase chunk)) = spec_matched chunk"
    by (simp add: fun_eq_iff term_matches_spec)
  with q show ?thesis by (simp add: score_chunk_def spec_score_def Let_def)
qed

text \<open>
  Claim C2, as amended. For every query that is not empty and has no white space at either
  end, and every chunk of the corpus, the fallback search gives the chunk the score
  (number of matched query terms) / (number of query terms), the terms being the tokens
  between white space of the lowercased query, and a term being matched exactly when a
  token of the lowercased chunk contains it or it contains such a token. The matches
  returned carry these scores.
\<close>

theorem fallback_score_is_matched_over_total:
  assumes "trimmed query"
  shows "scores query
           = map (\<lambda>chunk. \<lparr>match_text = chunk, score = spec_score query chunk\<rparr>) FALLBACK_CORPUS
       \<and> list_all (\<lambda>m. score m = spec_score query (match_text m)) (searchWithFallback query)"
proof -
  have sc: "scores query
      = map (\<lambda>chunk. \<lparr>match_text = chunk, score = spec_score query chunk\<rparr>) FALLBACK_CORPUS"
    using corpus_trimmed assms by (simp add: scores_def Let_def list_all_iff score_chunk_spec)
  have "set (searchWithFallback query) \<subseteq> set (scores query)"
    using set_take_subset [of 3 "sort_cmp (\<lambda>a b. score b - score a)
      (filter (\<lambda>item. score item > 0) (scores query))"]
    by (auto simp: searchWithFallback_def set_sort_cmp)
  then have "list_all (\<lambda>m. score m = spec_score query (match_text m)) (searchWithFallback query)"
    unfolding sc by (auto simp: list_all_iff)
  with sc show ?thesis by simp
qed

theorem fallback_score_is_matched_over_total_witness:
  "trimmed ''medication zzxxyy''
   \<and> map score (scores ''medication zzxxyy'') = [1 / 2, 1 / 2, 1 / 2, 0, 1 / 2]
   \<and> map (spec_score ''medication zzxxyy'') FALLBACK_CORPUS = [1 / 2, 1 / 2, 1 / 2, 0, 1 / 2]"
proof -
  have t: "trimmed ''medication zzxxyy''" by code_simp
  have v: "map (spec_score ''medication zzxxyy'') FALLBACK_CORPUS = [1 / 2, 1 / 2, 1 / 2, 0, 1 / 2]"
    by code_simp
  from fallback_score_is_matched_over_total [OF t]
  have "map score (scores ''medication zzxxyy'')
      = map (spec_score ''medication zzxxyy'') FALLBACK_CORPUS"
    by (simp add: comp_def)
  with t v show ?thesis by simp
qed

text \<open>
  The claim as stated fails for a query with white space in front: the query has the one
  token \<open>zzxxyy\<close>, which no chunk matches, but the search splits it into the empty
  string and \<open>zzxxyy\<close> and gives each chunk the score 1/2.
\<close>

theorem leading_space_query_counterexample:
  "spec_tokens (toLowerCase '' zzxxyy'') = [''zzxxyy'']
   \<and> spec_score '' zzxxyy'' (FALLBACK_CORPUS ! 0) = 0
   \<and> score (scores '' zzxxyy'' ! 0) = 1 / 2"
  by code_simp

lemma no_match_search: "searchWithFallback ''zzxxyy nonexistent'' = []"
  by code_simp

text \<open>
  Claim C8. In fallback mode the query \<open>zzxxyy nonexistent\<close> has no match in the corpus
  of five chunks, and the answer synthesized from no match is the fixed text that says no
  specific information is available and recommends to consult a healthcare professional.
\<close>

theorem no_match_query_disclaimer:
  "searchWithFallback ''zzxxyy nonexistent'' = []
   \<and> search (svc\<lparr>useFallback := True\<rparr>) w ''zzxxyy nonexistent''
       = ([], FallbackDirect, svc\<lparr>useFallback := True\<rparr>)
   \<and> synthesizeAnswer svc' w' query [] =
       \<lparr>answer_text = ''I don't have specific information about that topic. Please consult with a healthcare professional for medical guidance.'',
        generative_called = False\<rparr>
   \<and> fst (handleFAQ (svc\<lparr>useFallback := True\<rparr>) w ''zzxxyy nonexistent'')
       = \<lparr>answer = NO_INFORMATION, matches = []\<rparr>"
  by (simp add: no_match_search search_def handleFAQ_def synthesizeAnswer_def NO_INFORMATION_def)

lemma str_includes_Nil: "str_includes s []"
  by (induction s) simp_all

lemma split_ws_not_Nil: "split_ws s \<noteq> []"
  by (subst split_ws.simps) (simp add: Let_def)

lemma empty_term_matches: "term_matches (split_ws s) []"
proof -
  obtain t ts where "split_ws s = t # ts"
    using split_ws_not_Nil [of s] by (cases "split_ws s") auto
  then show ?thesis by (simp add: term_matches_def str_includes_Nil)
qed

lemma split_ws_empty: "split_ws (toLowerCase []) = [[]]"
  by (simp add: toLowerCase_def split_ws.simps)

text \<open>
  Claim C7, as amended. Splitting the empty query gives one term, the empty string. The
  empty term matches every chunk, so every chunk has score 1 and the search returns the
  first three chunks of the corpus.
\<close>

theorem empty_query_one_empty_term:
  "split_ws (toLowerCase []) = [[]]
   \<and> score_chunk (split_ws (toLowerCase [])) chunk = \<lparr>match_text = chunk, score = 1\<rparr>
   \<and> scores [] = map (\<lambda>chunk. \<lparr>match_text = chunk, score = 1\<rparr>) FALLBACK_CORPUS
   \<and> searchWithFallback [] = map (\<lambda>chunk. \<lparr>match_text = chunk, score = 1\<rparr>) (take 3 FALLBACK_CORPUS)"
proof -
  have sc: "score_chunk [[]] chunk = \<lparr>match_text = chunk, score = 1\<rparr>" for chunk
    by (simp add: score_chunk_def Let_def empty_term_matches)
  then have ss: "scores [] = map (\<lambda>chunk. \<lparr>match_text = chunk, score = 1\<rparr>) FALLBACK_CORPUS"
    by (simp add: scores_def split_ws_empty)
  have "searchWithFallback [] = map (\<lambda>chunk. \<lparr>match_text = chunk, score = 1\<rparr>) (take 3 FALLBACK_CORPUS)"
    unfolding searchWithFallback_def ss
    by (simp add: FALLBACK_CORPUS_def sort_cmp_def)
  with sc ss show ?thesis by (simp add: split_ws_empty)
qed

text \<open>
  The claim as stated fails: the term sequence of the empty query is not empty, its term
  matches the first chunk, and the search returns matches.
\<close>

theorem empty_query_terms_counterexample:
  "split_ws (toLowerCase []) \<noteq> []
   \<and> term_matches (split_ws (toLowerCase (FALLBACK_CORPUS ! 0))) (split_ws (toLowerCase []) ! 0)
   \<and> searchWithFallback [] \<noteq> []"
proof -
  have "searchWithFallback [] \<noteq> []" by code_simp
  then show ?thesis by (simp add: split_ws_empty empty_term_matches)
qed

end
